theory Spec2Isabelle
  imports Main "HOL-Library.Sublist" "HOL-Library.Word"
begin

section \<open>The real-time transcription daemon (realtime-whisper-daemon.py)\<close>

text \<open>
  A shallow embedding of the module's global state and of the functions that change it:
  \<^verbatim>\<open>start_recording\<close>, \<^verbatim>\<open>stop_recording\<close>, \<^verbatim>\<open>process_audio_chunk\<close> and the body of the
  loop of \<^verbatim>\<open>transcription_worker\<close>. The speech model, the audio device and the keystroke
  tool are outside the module: what they return is an argument of the function that calls
  them, and what is sent to the keystroke tool is a result.
\<close>

subsection \<open>Configuration\<close>

definition SAMPLE_RATE :: nat where
  "SAMPLE_RATE = 16000"

definition CHUNK :: nat where
  "CHUNK = 4096"

definition SEGMENT_LENGTH :: nat where
  "SEGMENT_LENGTH = 2"

definition BUFFER_LENGTH :: nat where
  "BUFFER_LENGTH = 10"

subsection \<open>The global state\<close>

text \<open>
  Audio samples are \<^verbatim>\<open>int16\<close>, read from the bytes of the device. The globals of the
  module are the fields of one record: \<open>stream\<close> says whether \<^verbatim>\<open>stream\<close> holds a stream
  object (it is \<^verbatim>\<open>None\<close> until the first successful open), \<open>audio_buffer\<close> is the
  contents of the deque from the oldest sample to the newest, \<open>audio_queue\<close> the contents
  of the queue with the next item to get at the head.
\<close>

type_synonym byte = "8 word"

type_synonym sample = "16 word"

datatype error = ValueError | BackendError

record daemon =
  recording :: bool
  stream :: bool
  audio_buffer :: "sample list"
  audio_queue :: "sample list list"
  stop_threads :: bool
  last_text :: string

text \<open>Lines 41 to 49: the state when the module is loaded.\<close>

definition initial :: daemon where
  "initial = \<lparr>recording = False, stream = False, audio_buffer = [], audio_queue = [],
              stop_threads = False, last_text = []\<rparr>"

subsection \<open>Strings\<close>

text \<open>
  A Python \<^verbatim>\<open>str\<close> is a sequence of code points; the model has the code points below 256,
  one \<^typ>\<open>char\<close> each, so \<^const>\<open>length\<close> is \<^verbatim>\<open>len\<close>. \<^verbatim>\<open>str.isspace\<close> on
  these code points: tab to carriage return, the four separators 28 to 31, the space,
  NEL (133) and the no-break space (160).
\<close>

definition py_isspace :: "char \<Rightarrow> bool" where
  "py_isspace c = ((of_char c :: nat) \<in> set [9, 10, 11, 12, 13, 28, 29, 30, 31, 32, 133, 160])"

text \<open>\<^verbatim>\<open>s.strip()\<close>: the whitespace at both ends removed.\<close>

definition py_strip :: "string \<Rightarrow> string" where
  "py_strip s = rev (dropWhile py_isspace (rev (dropWhile py_isspace s)))"

text \<open>\<^verbatim>\<open>s.startswith(p)\<close> and \<^verbatim>\<open>s.endswith(p)\<close>.\<close>

definition startswith :: "string \<Rightarrow> string \<Rightarrow> bool" where
  "startswith s p = prefix p s"

definition endswith :: "string \<Rightarrow> string \<Rightarrow> bool" where
  "endswith s p = suffix p s"

subsection \<open>The reconciliation of a transcription with the last text\<close>

text \<open>
  The test of line 125, with \<open>prev\<close> the value of \<^verbatim>\<open>last_text\<close>: the new transcription is
  longer than the last text and starts with \<^verbatim>\<open>last_text[:10]\<close>.
\<close>

definition starts_similarly :: "string \<Rightarrow> string \<Rightarrow> bool" where
  "starts_similarly prev transcription =
     (length transcription > length prev \<and> startswith transcription (take 10 prev))"

text \<open>
  Lines 119 to 141 of \<^verbatim>\<open>transcription_worker\<close>, from the value \<open>prev\<close> of \<^verbatim>\<open>last_text\<close>
  and the text the model returned: the first component is the text typed by
  \<^verbatim>\<open>xdotool type\<close> (\<open>None\<close> when nothing is typed), the second the value of
  \<^verbatim>\<open>last_text\<close> afterwards. A failure of \<^verbatim>\<open>xdotool\<close> is caught at line 137 and
  \<^verbatim>\<open>last_text\<close> is assigned all the same.
\<close>

definition reconcile :: "string \<Rightarrow> string \<Rightarrow> string option \<times> string" where
  "reconcile prev text =
     (let transcription = py_strip text in
      if transcription \<noteq> [] then
        if transcription \<noteq> prev \<and> \<not> endswith prev transcription then
          let new_text =
                (if starts_similarly prev transcription
                 then drop (length prev) transcription
                 else '' '' @ transcription)
          in (Some new_text, transcription)
        else (None, prev)
      else (None, prev))"

text \<open>The delta of a step as a string: empty when nothing is typed.\<close>

definition delta :: "string option \<times> string \<Rightarrow> string" where
  "delta r = (case fst r of None \<Rightarrow> [] | Some new_text \<Rightarrow> new_text)"

subsection \<open>The rolling buffer\<close>

text \<open>
  \<^verbatim>\<open>deque(maxlen=n)\<close>: \<^verbatim>\<open>append\<close> adds on the right and, when the deque is then longer
  than \<^verbatim>\<open>maxlen\<close>, removes the leftmost item; \<^verbatim>\<open>extend\<close> appends the items one by one.
\<close>

definition deque_append :: "nat \<Rightarrow> 'a list \<Rightarrow> 'a \<Rightarrow> 'a list" where
  "deque_append maxlen d x = (let d' = d @ [x] in if length d' > maxlen then tl d' else d')"

definition deque_extend :: "nat \<Rightarrow> 'a list \<Rightarrow> 'a list \<Rightarrow> 'a list" where
  "deque_extend maxlen d xs = foldl (deque_append maxlen) d xs"

text \<open>Line 45: \<^verbatim>\<open>maxlen=int(BUFFER_LENGTH * SAMPLE_RATE)\<close>.\<close>

definition audio_buffer_maxlen :: nat where
  "audio_buffer_maxlen = BUFFER_LENGTH * SAMPLE_RATE"

text \<open>
  \<^verbatim>\<open>np.frombuffer(chunk, dtype=np.int16)\<close>: two bytes a sample, the low byte first (the
  byte order of the machines the daemon runs on); a buffer of odd size raises
  \<^verbatim>\<open>ValueError\<close>.
\<close>

fun frombuffer_int16 :: "byte list \<Rightarrow> error + sample list" where
  "frombuffer_int16 [] = Inr []"
| "frombuffer_int16 [b] = Inl ValueError"
| "frombuffer_int16 (lo # hi # bs) =
     (case frombuffer_int16 bs of
        Inl e \<Rightarrow> Inl e
      | Inr xs \<Rightarrow> Inr (word_cat hi lo # xs))"

text \<open>
  \<^verbatim>\<open>process_audio_chunk\<close> (lines 180 to 196): the samples go into the rolling buffer,
  and when the buffer holds at least \<^verbatim>\<open>SEGMENT_LENGTH * SAMPLE_RATE\<close> samples a copy of
  the whole buffer is put on the queue. The queue is unbounded, so \<^verbatim>\<open>put\<close> returns at
  once.
\<close>

definition process_audio_chunk :: "daemon \<Rightarrow> byte list \<Rightarrow> error + daemon" where
  "process_audio_chunk s chunk =
     (case frombuffer_int16 chunk of
        Inl e \<Rightarrow> Inl e
      | Inr audio_data \<Rightarrow>
          (let s' = s\<lparr>audio_buffer :=
                       deque_extend audio_buffer_maxlen (audio_buffer s) audio_data\<rparr>
           in if length (audio_buffer s') \<ge> SEGMENT_LENGTH * SAMPLE_RATE
              then Inr (s'\<lparr>audio_queue := audio_queue s' @ [audio_buffer s']\<rparr>)
              else Inr s'))"

text \<open>
  Successive calls of \<^verbatim>\<open>process_audio_chunk\<close> from the loop of
  \<^verbatim>\<open>monitor_control_file\<close>: the handler of line 220 catches what a call raises, and
  the state is then as it was before the call.
\<close>

fun process_audio_chunks :: "daemon \<Rightarrow> byte list list \<Rightarrow> daemon" where
  "process_audio_chunks s [] = s"
| "process_audio_chunks s (chunk # chunks) =
     (case process_audio_chunk s chunk of
        Inl e \<Rightarrow> process_audio_chunks s chunks
      | Inr s' \<Rightarrow> process_audio_chunks s' chunks)"

text \<open>The samples a chunk adds to the buffer: none when the call raises.\<close>

definition samples_of :: "byte list \<Rightarrow> sample list" where
  "samples_of chunk =
     (case frombuffer_int16 chunk of Inl e \<Rightarrow> [] | Inr audio_data \<Rightarrow> audio_data)"

subsection \<open>Starting and stopping\<close>

text \<open>
  \<^verbatim>\<open>start_recording\<close> (lines 65 to 98); \<open>opened\<close> says whether \<^verbatim>\<open>p.open\<close> returned a
  stream (otherwise it raised, and line 98 takes \<^verbatim>\<open>recording\<close> back). The thread it
  starts runs \<^verbatim>\<open>transcription_worker\<close>, whose passes are \<open>worker_iteration\<close> below.
\<close>

definition start_recording :: "bool \<Rightarrow> daemon \<Rightarrow> daemon" where
  "start_recording opened s =
     (if recording s then s
      else (let s1 = s\<lparr>audio_buffer := [], stop_threads := False\<rparr>
            in if opened then s1\<lparr>recording := True, stream := True\<rparr>
               else s1\<lparr>recording := False\<rparr>))"

text \<open>
  \<^verbatim>\<open>stop_recording\<close> (lines 153 to 178). Closing the stream, joining the thread and
  typing the Return key change none of the fields, and both assignments are done before
  any of them can raise.
\<close>

definition stop_recording :: "daemon \<Rightarrow> daemon" where
  "stop_recording s =
     (if \<not> recording s then s
      else s\<lparr>recording := False, stop_threads := True\<rparr>)"

subsection \<open>One pass of the worker's loop\<close>

text \<open>
  The body of the loop of \<^verbatim>\<open>transcription_worker\<close> (lines 105 to 151). \<open>result\<close>
  is what lines 110 to 119 give for the segment taken off the queue, up to
  \<^verbatim>\<open>result["text"]\<close>: the text of the model, called on the samples with \<^verbatim>\<open>last_text\<close>
  as the prompt, or what it raised. With an empty queue \<^verbatim>\<open>get\<close> raises \<^verbatim>\<open>queue.Empty\<close>
  and the pass does nothing; when the model raises, the segment is already off the queue
  and \<^verbatim>\<open>last_text\<close> stays.
\<close>

definition worker_iteration :: "error + string \<Rightarrow> daemon \<Rightarrow> string option \<times> daemon" where
  "worker_iteration result s =
     (case audio_queue s of
        [] \<Rightarrow> (None, s)
      | audio_data # queued \<Rightarrow>
          (case result of
             Inl e \<Rightarrow> (None, s\<lparr>audio_queue := queued\<rparr>)
           | Inr text \<Rightarrow>
               (let r = reconcile (last_text s) text
                in (fst r, s\<lparr>audio_queue := queued, last_text := snd r\<rparr>))))"

subsection \<open>Runs of the daemon\<close>

text \<open>
  What the two loops do, one step at a time. The loop of \<^verbatim>\<open>monitor_control_file\<close> calls
  \<^verbatim>\<open>start_recording\<close> and \<^verbatim>\<open>stop_recording\<close> (lines 208 to 211) and, when \<^verbatim>\<open>recording\<close>
  and \<^verbatim>\<open>stream\<close> hold, \<^verbatim>\<open>process_audio_chunk\<close> on the bytes it read (lines 216 to 221,
  the handler keeping the state when the call raises). The loop of
  \<^verbatim>\<open>transcription_worker\<close> makes passes: a pass that gets a segment calls the model on
  it with \<^verbatim>\<open>last_text\<close> as the prompt (lines 107 to 117); \<open>transcribe\<close> is the model.

  A step gives the state after it and three lists of at most one item: the segment it
  put on the queue (lines 191 to 196), the segment it took off the queue (line 107) and
  the text it typed (line 136). A pass is one step: the passes of a run are those of one
  worker thread, or of several whose passes do not overlap. Every list of events is a
  run, also those the flags rule out, such as a pass after the stop flag is set.
\<close>

datatype event = Start bool | Stop | Audio "byte list" | Pass

fun step ::
  "(sample list \<Rightarrow> string \<Rightarrow> error + string) \<Rightarrow> daemon \<Rightarrow> event
   \<Rightarrow> daemon \<times> sample list list \<times> sample list list \<times> string list" where
  "step transcribe s (Start opened) = (start_recording opened s, [], [], [])"
| "step transcribe s Stop = (stop_recording s, [], [], [])"
| "step transcribe s (Audio data) =
     (if recording s \<and> stream s then
        (case process_audio_chunk s data of
           Inl e \<Rightarrow> (s, [], [], [])
         | Inr s' \<Rightarrow>
             (s',
              if length (audio_buffer s') \<ge> SEGMENT_LENGTH * SAMPLE_RATE
              then [audio_buffer s'] else [],
              [], []))
      else (s, [], [], []))"
| "step transcribe s Pass =
     (case audio_queue s of
        [] \<Rightarrow> (s, [], [], [])
      | audio_data # queued \<Rightarrow>
          (let r = worker_iteration (transcribe audio_data (last_text s)) s
           in (snd r, [], [audio_data],
               case fst r of None \<Rightarrow> [] | Some new_text \<Rightarrow> [new_text])))"

text \<open>
  A run: the state after the events, the segments put on the queue, the segments taken
  off the queue and the texts typed, each list in the order of the events.
\<close>

fun run ::
  "(sample list \<Rightarrow> string \<Rightarrow> error + string) \<Rightarrow> daemon \<Rightarrow> event list
   \<Rightarrow> daemon \<times> sample list list \<times> sample list list \<times> string list" where
  "run transcribe s [] = (s, [], [], [])"
| "run transcribe s (e # es) =
     (case step transcribe s e of
        (s1, put1, got1, typed1) \<Rightarrow>
          (case run transcribe s1 es of
             (s2, put2, got2, typed2) \<Rightarrow> (s2, put1 @ put2, got1 @ got2, typed1 @ typed2)))"

text \<open>
  What reconciling a list of segments in its order means, for comparison with a run:
  each segment in turn is transcribed with the last text as the prompt and the result
  reconciled (a segment on which the model raises is dropped); the texts typed, in
  order, and the last text at the end.
\<close>

fun reconcile_segments ::
  "(sample list \<Rightarrow> string \<Rightarrow> error + string) \<Rightarrow> string \<Rightarrow> sample list list
   \<Rightarrow> string list \<times> string" where
  "reconcile_segments transcribe prev [] = ([], prev)"
| "reconcile_segments transcribe prev (audio_data # segments) =
     (case transcribe audio_data prev of
        Inl e \<Rightarrow> reconcile_segments transcribe prev segments
      | Inr text \<Rightarrow>
          (case reconcile_segments transcribe (snd (reconcile prev text)) segments of
             (typed, final) \<Rightarrow>
               ((case fst (reconcile prev text) of None \<Rightarrow> [] | Some new_text \<Rightarrow> [new_text])
                  @ typed, final)))"

section \<open>Properties of the reconciliation\<close>

subsection \<open>The two outcomes of a step\<close>

lemma reconcile_nothing:
  "py_strip text = [] \<or> py_strip text = prev \<or> endswith prev (py_strip text)
   \<Longrightarrow> reconcile prev text = (None, prev)"
  by (auto simp add: reconcile_def Let_def)

lemma reconcile_typed:
  "py_strip text \<noteq> [] \<Longrightarrow> py_strip text \<noteq> prev \<Longrightarrow> \<not> endswith prev (py_strip text)
   \<Longrightarrow> reconcile prev text =
       (Some (if starts_similarly prev (py_strip text)
              then drop (length prev) (py_strip text) else '' '' @ py_strip text),
        py_strip text)"
  by (simp add: reconcile_def Let_def)

lemma longer_not_endswith: "length prev < length c \<Longrightarrow> \<not> endswith prev c"
  by (auto simp add: endswith_def dest: suffix_length_le)

lemma startswith_take: "startswith c prev \<Longrightarrow> startswith c (take n prev)"
  unfolding startswith_def using take_is_prefix prefix_order.trans by blast

lemma startswith_longer: "startswith c prev \<Longrightarrow> c \<noteq> prev \<Longrightarrow> length prev < length c"
  by (auto simp add: startswith_def prefix_def)

lemma startswith_take_eq:
  assumes "n \<le> length prev"
  shows "startswith c (take n prev) = (take n c = take n prev)"
proof
  assume "startswith c (take n prev)"
  then obtain zs where "c = take n prev @ zs"
    by (auto simp add: startswith_def prefix_def)
  with assms show "take n c = take n prev" by simp
next
  assume "take n c = take n prev"
  then show "startswith c (take n prev)"
    unfolding startswith_def by (metis take_is_prefix)
qed

lemma space_differs: "'' '' @ c \<noteq> drop n c"
proof
  assume "'' '' @ c = drop n c"
  then have "length ('' '' @ c) = length (drop n c)" by simp
  then show False by simp
qed

subsection \<open>The scenario of the first two results\<close>

text \<open>
  C2, as stated: from the initial state the candidate \<open>hello\<close> gives the delta
  \<open>hello\<close> with a leading space. It does not: the last text is empty, every non-empty
  candidate is longer and starts with the empty opening, so line 127 types the candidate
  as it is.
\<close>

theorem first_delta_not_spaced:
  "delta (reconcile (last_text initial) ''hello'') \<noteq> '' hello''"
  by code_simp

text \<open>
  C2, amended: from the initial state the candidate \<open>hello\<close> is typed without a
  leading space and becomes the last text; the candidate \<open>hello world\<close> after it gives
  the delta \<open>world\<close> with its leading space and becomes the last text.
\<close>

theorem hello_then_hello_world:
  "reconcile (last_text initial) ''hello'' = (Some ''hello'', ''hello'')
   \<and> reconcile ''hello'' ''hello world'' = (Some '' world'', ''hello world'')"
  by code_simp

subsection \<open>When the growth branch is taken\<close>

text \<open>
  C3, as stated: the growth branch is taken exactly when the candidate is longer and the
  first 10 characters of the candidate equal the first 10 characters of the last text.
  With the last text \<open>hello\<close> and the candidate \<open>hello world\<close> the growth branch is
  taken and the first 10 characters differ: line 125 tests that the candidate starts with
  \<^verbatim>\<open>last_text[:10]\<close>, which is the whole last text when that is shorter than 10.
\<close>

theorem growth_with_different_openings:
  "py_strip ''hello world'' = ''hello world'' \<and> ''hello world'' \<noteq> []
   \<and> ''hello world'' \<noteq> ''hello'' \<and> \<not> endswith ''hello'' ''hello world''
   \<and> fst (reconcile ''hello'' ''hello world'') = Some (drop (length ''hello'') ''hello world'')
   \<and> \<not> (length ''hello world'' > length ''hello''
          \<and> take 10 ''hello world'' = take 10 ''hello'')"
  by code_simp

text \<open>
  C3, amended: for a trimmed non-empty candidate that is not suppressed, the delta is
  the candidate from position \<open>len(lastText)\<close> on exactly when the candidate is longer
  than the last text and starts with the first 10 characters of the last text; in every
  other such case the delta is a space and the candidate. When the last text has at least
  10 characters, starting with its first 10 characters is having the same first 10
  characters.
\<close>

theorem growth_branch_iff:
  assumes "py_strip c = c" and "c \<noteq> []" and "c \<noteq> prev" and "\<not> endswith prev c"
  shows "(fst (reconcile prev c) = Some (drop (length prev) c)) =
           (length c > length prev \<and> startswith c (take 10 prev))
       \<and> (\<not> (length c > length prev \<and> startswith c (take 10 prev)) \<longrightarrow>
            fst (reconcile prev c) = Some ('' '' @ c))
       \<and> (10 \<le> length prev \<longrightarrow>
            startswith c (take 10 prev) = (take 10 c = take 10 prev))"
proof -
  have r: "reconcile prev c =
       (Some (if starts_similarly prev c then drop (length prev) c else '' '' @ c), c)"
    using reconcile_typed [of c prev] assms by simp
  show ?thesis
    using space_differs [of c "length prev"]
    by (simp add: r starts_similarly_def startswith_take_eq)
qed

theorem growth_branch_iff_witness:
  "py_strip ''the quick brown fox'' = ''the quick brown fox'' \<and> ''the quick brown fox'' \<noteq> []
   \<and> ''the quick brown fox'' \<noteq> ''the quick brown''
   \<and> \<not> endswith ''the quick brown'' ''the quick brown fox''
   \<and> 10 \<le> length ''the quick brown''
   \<and> fst (reconcile ''the quick brown'' ''the quick brown fox'') = Some '' fox''
   \<and> py_strip ''bye'' = ''bye'' \<and> ''bye'' \<noteq> [] \<and> ''bye'' \<noteq> ''the quick brown''
   \<and> \<not> endswith ''the quick brown'' ''bye''
   \<and> \<not> (length ''bye'' > length ''the quick brown''
          \<and> startswith ''bye'' (take 10 ''the quick brown''))
   \<and> fst (reconcile ''the quick brown'' ''bye'') = Some '' bye''"
proof -
  have a1: "py_strip ''the quick brown fox'' = ''the quick brown fox''" by code_simp
  have a2: "''the quick brown fox'' \<noteq> []" by simp
  have a3: "''the quick brown fox'' \<noteq> ''the quick brown''" by simp
  have a4: "\<not> endswith ''the quick brown'' ''the quick brown fox''" by code_simp
  have a5: "take 10 ''the quick brown fox'' = take 10 ''the quick brown''" by simp
  have b1: "py_strip ''bye'' = ''bye''" by code_simp
  have b2: "''bye'' \<noteq> []" by simp
  have b3: "''bye'' \<noteq> ''the quick brown''" by simp
  have b4: "\<not> endswith ''the quick brown'' ''bye''" by code_simp
  have b5: "\<not> (length ''bye'' > length ''the quick brown''
          \<and> startswith ''bye'' (take 10 ''the quick brown''))" by simp
  have "fst (reconcile ''the quick brown'' ''the quick brown fox'') = Some '' fox''"
    using growth_branch_iff [OF a1 a2 a3 a4] a5 by simp
  moreover have "fst (reconcile ''the quick brown'' ''bye'') = Some '' bye''"
    using growth_branch_iff [OF b1 b2 b3 b4] b5 by simp
  ultimately show ?thesis using a1 a2 a3 a4 b1 b2 b3 b4 b5 by simp
qed

subsection \<open>The length of the last text\<close>

text \<open>
  C4, as stated: in every step that changes the state the last text gets no shorter.
  It does in the new-utterance branch: line 141 assigns the candidate whatever its
  length.
\<close>

theorem new_utterance_shortens_last_text:
  "reconcile ''hello world'' ''bye'' = (Some '' bye'', ''bye'')
   \<and> length (snd (reconcile ''hello world'' ''bye'')) < length ''hello world''"
  by code_simp

text \<open>
  C4, amended: the last text gets shorter only in a step of the new-utterance branch,
  which types a space and the trimmed candidate and makes that candidate the last text;
  a step of the growth branch and a step that types nothing never shorten it.
\<close>

theorem last_text_shrinks_only_new_utterance:
  assumes "length (snd (reconcile prev text)) < length prev"
  shows "reconcile prev text = (Some ('' '' @ py_strip text), py_strip text)
         \<and> \<not> starts_similarly prev (py_strip text)"
  using assms
  by (auto simp add: reconcile_def Let_def starts_similarly_def split: if_splits)

theorem last_text_shrinks_only_new_utterance_witness:
  "length (snd (reconcile ''hello world'' ''bye'')) < length ''hello world''
   \<and> reconcile ''hello world'' ''bye'' = (Some '' bye'', ''bye'')
   \<and> \<not> starts_similarly ''hello world'' ''bye''"
proof -
  have h: "length (snd (reconcile ''hello world'' ''bye'')) < length ''hello world''"
    by code_simp
  have t: "py_strip ''bye'' = ''bye''" by code_simp
  show ?thesis
    using h last_text_shrinks_only_new_utterance [OF h] by (simp add: t)
qed

subsection \<open>A candidate that extends the last text\<close>

text \<open>
  C5: for every last text and every trimmed candidate that starts with the last text,
  the delta is the candidate from position \<open>len(lastText)\<close> on, with no space added.
\<close>

theorem extension_delta:
  assumes "py_strip c = c" and "startswith c prev"
  shows "delta (reconcile prev c) = drop (length prev) c"
proof (cases "c = prev")
  case True
  then have "reconcile prev c = (None, prev)"
    using assms(1) by (simp add: reconcile_nothing)
  with True show ?thesis by (simp add: delta_def)
next
  case False
  with assms(2) have len: "length prev < length c"
    by (rule startswith_longer)
  then have ne: "c \<noteq> []" by auto
  have sim: "starts_similarly prev c"
    using len assms(2) by (simp add: starts_similarly_def startswith_take)
  have "reconcile prev c = (Some (drop (length prev) c), c)"
    using reconcile_typed [of c prev] assms(1) False ne longer_not_endswith [OF len] sim
    by simp
  then show ?thesis by (simp add: delta_def)
qed

theorem extension_delta_witness:
  "py_strip ''hello world'' = ''hello world'' \<and> startswith ''hello world'' ''hello''
   \<and> delta (reconcile ''hello'' ''hello world'') = '' world''"
proof -
  have h1: "py_strip ''hello world'' = ''hello world''" by code_simp
  have h2: "startswith ''hello world'' ''hello''" by code_simp
  show ?thesis using h1 h2 extension_delta [OF h1 h2] by simp
qed

subsection \<open>Suppressed candidates\<close>

text \<open>
  C6: for every trimmed candidate, if the candidate equals the last text or the last
  text ends with the candidate, nothing is typed and the last text is unchanged.
\<close>

theorem suppressed_candidate:
  assumes "py_strip c = c" and "c = prev \<or> endswith prev c"
  shows "reconcile prev c = (None, prev) \<and> delta (reconcile prev c) = []"
  using assms by (auto simp add: reconcile_nothing delta_def)

theorem suppressed_candidate_witness:
  "py_strip ''world'' = ''world'' \<and> endswith ''hello world'' ''world''
   \<and> reconcile ''hello world'' ''world'' = (None, ''hello world'')
   \<and> delta (reconcile ''hello world'' ''world'') = []"
proof -
  have h1: "py_strip ''world'' = ''world''" by code_simp
  have h2: "endswith ''hello world'' ''world''" by code_simp
  have h3: "''world'' = ''hello world'' \<or> endswith ''hello world'' ''world''"
    using h2 by simp
  show ?thesis using h1 h2 suppressed_candidate [OF h1 h3] by (simp add: delta_def)
qed

subsection \<open>The same text twice\<close>

text \<open>
  C7: for every string and every last text, reconciling the string and then the same
  string again types nothing the second time.
\<close>

theorem same_text_twice:
  "fst (reconcile (snd (reconcile prev a)) a) = None
   \<and> delta (reconcile (snd (reconcile prev a)) a) = []"
  by (auto simp add: reconcile_def Let_def delta_def)

subsection \<open>What is typed is not empty\<close>

text \<open>
  C10: every text a step types is non-empty: in the growth branch the candidate is
  longer than the last text, in the new-utterance branch the text starts with a space.
\<close>

theorem typed_text_nonempty:
  assumes "fst (reconcile prev text) = Some new_text"
  shows "new_text \<noteq> []"
  using assms
  by (auto simp add: reconcile_def Let_def starts_similarly_def split: if_splits)

theorem typed_text_nonempty_witness:
  "fst (reconcile ''hello'' ''hello world'') = Some '' world'' \<and> '' world'' \<noteq> []"
proof -
  have h: "fst (reconcile ''hello'' ''hello world'') = Some '' world''" by code_simp
  show ?thesis using h typed_text_nonempty [OF h] by simp
qed

section \<open>Properties of the rolling buffer\<close>

subsection \<open>The deque as a window on what was appended\<close>

lemma drop_window_append:
  "drop (length (drop (length b - m) b @ xs) - m) (drop (length b - m) b @ xs)
   = drop (length (b @ xs) - m) (b @ xs)"
proof (cases "length b \<le> m")
  case True
  then show ?thesis by simp
next
  case False
  obtain old new where b: "b = old @ new" and new: "length new = m"
    using False append_take_drop_id [of "length b - m" b]
    by (metis diff_diff_cancel length_drop nat_le_linear)
  show ?thesis by (simp add: b new)
qed

lemma deque_append_eq:
  "length d \<le> m \<Longrightarrow> deque_append m d x = drop (length (d @ [x]) - m) (d @ [x])"
  by (cases d) (auto simp add: deque_append_def Let_def Suc_diff_le)

lemma deque_extend_snoc:
  "deque_extend m d (xs @ [x]) = deque_append m (deque_extend m d xs) x"
  by (simp add: deque_extend_def)

lemma deque_extend_eq:
  "length d \<le> m \<Longrightarrow> deque_extend m d xs = drop (length (d @ xs) - m) (d @ xs)"
proof (induction xs rule: rev_induct)
  case Nil
  then show ?case by (simp add: deque_extend_def)
next
  case (snoc x xs)
  let ?b = "drop (length (d @ xs) - m) (d @ xs)"
  have len: "length ?b \<le> m" by simp
  have "deque_extend m d (xs @ [x]) = deque_append m ?b x"
    using snoc by (simp add: deque_extend_snoc)
  also have "\<dots> = drop (length (?b @ [x]) - m) (?b @ [x])"
    using len by (rule deque_append_eq)
  also have "\<dots> = drop (length ((d @ xs) @ [x]) - m) ((d @ xs) @ [x])"
    by (rule drop_window_append)
  finally show ?case by simp
qed

lemma deque_extend_evicts_oldest: "deque_extend 3 [1, 2 :: nat] [3, 4, 5] = [3, 4, 5]"
  by code_simp

subsection \<open>One chunk, and a run of chunks\<close>

lemma process_audio_chunk_Inr:
  assumes "length (audio_buffer s) \<le> audio_buffer_maxlen"
    and "frombuffer_int16 chunk = Inr audio_data"
    and "b = drop (length (audio_buffer s @ audio_data) - audio_buffer_maxlen)
               (audio_buffer s @ audio_data)"
  shows "process_audio_chunk s chunk =
           Inr (s\<lparr>audio_buffer := b,
                  audio_queue := audio_queue s @
                    (if SEGMENT_LENGTH * SAMPLE_RATE \<le> length b then [b] else [])\<rparr>)"
  using assms by (simp add: process_audio_chunk_def Let_def deque_extend_eq)

lemma process_audio_chunk_Inl:
  "frombuffer_int16 chunk = Inl e \<Longrightarrow> process_audio_chunk s chunk = Inl e"
  by (simp add: process_audio_chunk_def)

lemma process_audio_chunks_snoc:
  "process_audio_chunks s (chunks @ [chunk]) =
     (case process_audio_chunk (process_audio_chunks s chunks) chunk of
        Inl e \<Rightarrow> process_audio_chunks s chunks
      | Inr s' \<Rightarrow> s')"
  by (induction chunks arbitrary: s) (auto split: sum.splits)

lemma audio_buffer_window:
  assumes "length (audio_buffer s) \<le> audio_buffer_maxlen"
  shows "audio_buffer (process_audio_chunks s chunks) =
           drop (length (audio_buffer s @ concat (map samples_of chunks)) - audio_buffer_maxlen)
             (audio_buffer s @ concat (map samples_of chunks))"
  using assms
proof (induction chunks arbitrary: s)
  case Nil
  then show ?case by simp
next
  case (Cons chunk chunks)
  show ?case
  proof (cases "frombuffer_int16 chunk")
    case (Inl e)
    then show ?thesis using Cons by (simp add: process_audio_chunk_Inl samples_of_def)
  next
    case (Inr audio_data)
    then have sm: "samples_of chunk = audio_data" by (simp add: samples_of_def)
    let ?b = "drop (length (audio_buffer s @ audio_data) - audio_buffer_maxlen)
                (audio_buffer s @ audio_data)"
    obtain s' where s': "process_audio_chunk s chunk = Inr s'" and b: "audio_buffer s' = ?b"
      using process_audio_chunk_Inr [OF Cons.prems Inr refl] by simp
    have "length (audio_buffer s') \<le> audio_buffer_maxlen" using b by simp
    from Cons.IH [OF this]
    have "audio_buffer (process_audio_chunks s' chunks) =
            drop (length (?b @ concat (map samples_of chunks)) - audio_buffer_maxlen)
              (?b @ concat (map samples_of chunks))"
      by (simp only: b)
    also have "\<dots> =
            drop (length ((audio_buffer s @ audio_data) @ concat (map samples_of chunks))
                    - audio_buffer_maxlen)
              ((audio_buffer s @ audio_data) @ concat (map samples_of chunks))"
      by (rule drop_window_append)
    finally show ?thesis
      using s' sm by simp
  qed
qed

subsection \<open>Silent audio\<close>

text \<open>
  Chunks of zero bytes, as the device gives for digital silence: \<^verbatim>\<open>stream.read(CHUNK)\<close>
  returns \<open>2 * CHUNK\<close> bytes, 8192. They make inputs that are long enough to reach the
  segment threshold and the capacity of the buffer.
\<close>

lemma frombuffer_int16_silence:
  "frombuffer_int16 (replicate (2 * n) 0) = Inr (replicate n 0)"
  by (induction n) (simp_all add: word_cat_eq)

lemma samples_of_silence: "samples_of (replicate (2 * n) 0) = replicate n 0"
  by (simp add: samples_of_def frombuffer_int16_silence)

lemma concat_replicate_replicate:
  "concat (replicate m (replicate n x)) = replicate (m * n) x"
  by (induction m) (simp_all add: replicate_add)

lemma silent_chunk:
  assumes "audio_buffer s = replicate k 0" and "k \<le> audio_buffer_maxlen"
    and "j = min audio_buffer_maxlen (k + n)"
  shows "process_audio_chunk s (replicate (2 * n) 0) =
           Inr (s\<lparr>audio_buffer := replicate j 0,
                  audio_queue := audio_queue s @
                    (if SEGMENT_LENGTH * SAMPLE_RATE \<le> j then [replicate j 0] else [])\<rparr>)"
proof -
  have len: "length (audio_buffer s) \<le> audio_buffer_maxlen" using assms by simp
  have "drop (length (audio_buffer s @ replicate n 0) - audio_buffer_maxlen)
          (audio_buffer s @ replicate n 0) = replicate j (0 :: sample)"
    using assms by (auto simp add: replicate_add [symmetric] min_def)
  from process_audio_chunk_Inr [OF len frombuffer_int16_silence this [symmetric]]
  show ?thesis by simp
qed

lemma silent_chunks_buffer:
  assumes "audio_buffer s = []"
  shows "audio_buffer (process_audio_chunks s (replicate m (replicate (2 * n) 0))) =
           replicate (min audio_buffer_maxlen (m * n)) 0"
proof -
  have "length (audio_buffer s) \<le> audio_buffer_maxlen" using assms by simp
  from audio_buffer_window [OF this] show ?thesis
    using assms by (auto simp add: samples_of_silence concat_replicate_replicate min_def)
qed

lemma silent_chunks_Suc:
  assumes "audio_buffer s = []"
    and "j = min audio_buffer_maxlen (min audio_buffer_maxlen (m * n) + n)"
  shows "process_audio_chunks s (replicate (Suc m) (replicate (2 * n) 0)) =
           (process_audio_chunks s (replicate m (replicate (2 * n) 0)))
             \<lparr>audio_buffer := replicate j 0,
              audio_queue :=
                audio_queue (process_audio_chunks s (replicate m (replicate (2 * n) 0))) @
                (if SEGMENT_LENGTH * SAMPLE_RATE \<le> j then [replicate j 0] else [])\<rparr>"
proof -
  let ?t = "process_audio_chunks s (replicate m (replicate (2 * n) 0))"
  have b: "audio_buffer ?t = replicate (min audio_buffer_maxlen (m * n)) 0"
    using assms(1) by (rule silent_chunks_buffer)
  have "replicate (Suc m) (replicate (2 * n) (0 :: byte)) =
          replicate m (replicate (2 * n) 0) @ [replicate (2 * n) 0]"
    by (simp add: replicate_append_same)
  then show ?thesis
    using silent_chunk [OF b _ assms(2)]
    by (simp add: process_audio_chunks_snoc del: replicate.simps)
qed

lemma audio_buffer_start: "audio_buffer (start_recording True initial) = []"
  by (simp add: start_recording_def initial_def)

subsection \<open>The buffer is bounded and keeps the newest samples\<close>

text \<open>
  C8: for every sequence of pushes, the buffer never holds more than
  \<open>BUFFER_LENGTH * SAMPLE_RATE\<close> samples, and it holds the most recent samples in the
  order they came: of everything it held and was given, the oldest samples beyond the
  capacity are gone. The deque is within its \<^verbatim>\<open>maxlen\<close> before the pushes, as every
  deque is.
\<close>

theorem audio_buffer_bounded_fifo:
  assumes "length (audio_buffer s) \<le> audio_buffer_maxlen"
  shows "length (audio_buffer (process_audio_chunks s chunks)) \<le> BUFFER_LENGTH * SAMPLE_RATE
       \<and> audio_buffer (process_audio_chunks s chunks) =
           drop (length (audio_buffer s @ concat (map samples_of chunks))
                   - BUFFER_LENGTH * SAMPLE_RATE)
             (audio_buffer s @ concat (map samples_of chunks))"
  using audio_buffer_window [OF assms, of chunks] by (simp add: audio_buffer_maxlen_def)

theorem audio_buffer_bounded_fifo_witness:
  "length (audio_buffer initial) \<le> audio_buffer_maxlen
   \<and> audio_buffer (process_audio_chunks initial [[1, 0, 2, 0], [3], [4, 1]]) = [1, 2, 260]
   \<and> length (audio_buffer (start_recording True initial)) \<le> audio_buffer_maxlen
   \<and> length (concat (map samples_of (replicate 41 (replicate 8192 0)))) = 167936
   \<and> audio_buffer (process_audio_chunks (start_recording True initial)
                      (replicate 41 (replicate 8192 0))) = replicate 160000 0"
proof -
  have h: "length (audio_buffer initial) \<le> audio_buffer_maxlen" by (simp add: initial_def)
  have sm: "samples_of [1, 0, 2, 0] = [1, 2]" "samples_of [3] = []" "samples_of [4, 1] = [260]"
    by code_simp+
  have b0: "audio_buffer initial = []" by (simp add: initial_def)
  have small: "audio_buffer (process_audio_chunks initial [[1, 0, 2, 0], [3], [4, 1]])
                 = [1, 2, 260]"
    using audio_buffer_bounded_fifo [OF h, of "[[1, 0, 2, 0], [3], [4, 1]]"]
    by (simp add: sm b0 BUFFER_LENGTH_def SAMPLE_RATE_def del: process_audio_chunks.simps)
  have g: "length (audio_buffer (start_recording True initial)) \<le> audio_buffer_maxlen"
    by (simp add: audio_buffer_start)
  have c: "samples_of (replicate 8192 0) = replicate 4096 0"
    using samples_of_silence [of 4096] by simp
  have silent: "concat (replicate 41 (samples_of (replicate 8192 0))) = replicate 167936 0"
    by (simp add: c concat_replicate_replicate del: replicate.simps)
  have full: "length (concat (map samples_of (replicate 41 (replicate 8192 0)))) = 167936
       \<and> audio_buffer (process_audio_chunks (start_recording True initial)
                      (replicate 41 (replicate 8192 0))) = replicate 160000 0"
    using audio_buffer_bounded_fifo [OF g, of "replicate 41 (replicate 8192 0)"]
    by (simp add: silent audio_buffer_start BUFFER_LENGTH_def SAMPLE_RATE_def
          del: replicate.simps)
  show ?thesis using h small g full by simp
qed

section \<open>Properties of stopping and starting\<close>

lemma last_text_process_audio_chunk:
  "process_audio_chunk s chunk = Inr s' \<Longrightarrow> last_text s' = last_text s"
  by (auto simp add: process_audio_chunk_def Let_def split: sum.splits if_splits)

lemma last_text_process_audio_chunks:
  "last_text (process_audio_chunks s chunks) = last_text s"
  by (induction chunks arbitrary: s)
    (auto split: sum.splits dest: last_text_process_audio_chunk)

lemma last_text_start_recording: "last_text (start_recording opened s) = last_text s"
  by (simp add: start_recording_def Let_def)

lemma last_text_stop_recording: "last_text (stop_recording s) = last_text s"
  by (simp add: stop_recording_def)

lemma last_text_worker_iteration:
  "audio_queue s \<noteq> [] \<Longrightarrow>
   last_text (snd (worker_iteration (Inr text) s)) = snd (reconcile (last_text s) text)"
  by (cases "audio_queue s") (simp_all add: worker_iteration_def Let_def)

text \<open>
  C1, as stated: after a stop command followed by a start command the last text is the
  empty string. A session that starts, records eight chunks (the eighth dispatches the
  first segment), gets \<open>hello\<close> for it, stops and starts again has the last text
  \<open>hello\<close>: \<^verbatim>\<open>last_text\<close> is assigned at line 141 only.
\<close>

theorem last_text_survives_restart:
  "last_text (start_recording True (stop_recording (snd (worker_iteration (Inr ''hello'')
      (process_audio_chunks (start_recording True initial)
         (replicate 8 (replicate 8192 0)))))))
   = ''hello''"
proof -
  let ?s = "process_audio_chunks (start_recording True initial)
              (replicate (Suc 7) (replicate (2 * 4096) 0))"
  have "audio_queue ?s \<noteq> []"
    by (subst silent_chunks_Suc [OF audio_buffer_start refl])
      (simp add: audio_buffer_maxlen_def BUFFER_LENGTH_def SAMPLE_RATE_def SEGMENT_LENGTH_def
         del: replicate.simps)
  then have "last_text (snd (worker_iteration (Inr ''hello'') ?s))
               = snd (reconcile (last_text ?s) ''hello'')"
    by (rule last_text_worker_iteration)
  moreover have "last_text ?s = []"
    by (simp add: last_text_process_audio_chunks last_text_start_recording initial_def
          del: replicate.simps)
  moreover have "snd (reconcile [] ''hello'') = ''hello''" by code_simp
  moreover have "(8 :: nat) = Suc 7" "(8192 :: nat) = 2 * 4096" by simp_all
  ultimately show ?thesis
    by (simp only: last_text_start_recording last_text_stop_recording)
qed

text \<open>
  C1, amended: neither the stop command nor the start command resets the last text:
  after a stop command followed by a start command it is what it was before them. The
  start command after a stop empties the audio buffer and takes the stop flag back.
\<close>

theorem stop_start_keeps_last_text:
  "last_text (start_recording opened (stop_recording s)) = last_text s
   \<and> audio_buffer (start_recording opened (stop_recording s)) = []
   \<and> \<not> stop_threads (start_recording opened (stop_recording s))"
  by (simp add: start_recording_def stop_recording_def Let_def)

section \<open>Properties of the queue of segments\<close>

text \<open>
  C9, as stated: every segment put on the queue carries a sequence number, and these
  numbers increase strictly from one dispatch to the next. Line 196 puts the array of
  samples on the queue and nothing else. After 40 chunks of silence the buffer is full
  of zeros, and the chunks 40 and 41 dispatch the same item twice: nothing in the items
  tells the two dispatches apart.
\<close>

theorem identical_segments_dispatched:
  "audio_queue (process_audio_chunks (start_recording True initial)
                  (replicate 41 (replicate 8192 0)))
   = audio_queue (process_audio_chunks (start_recording True initial)
                    (replicate 39 (replicate 8192 0)))
     @ [replicate 160000 0, replicate 160000 0]"
proof -
  have c: "(8192 :: nat) = 2 * 4096" by simp
  have n41: "(41 :: nat) = Suc 40" and n40: "(40 :: nat) = Suc 39" by simp_all
  have s40: "audio_queue (process_audio_chunks (start_recording True initial)
                            (replicate 40 (replicate (2 * 4096) 0)))
           = audio_queue (process_audio_chunks (start_recording True initial)
                            (replicate 39 (replicate (2 * 4096) 0)))
             @ [replicate 160000 0]"
    unfolding n40
    by (subst silent_chunks_Suc [OF audio_buffer_start refl])
      (simp add: audio_buffer_maxlen_def BUFFER_LENGTH_def SAMPLE_RATE_def SEGMENT_LENGTH_def
         del: replicate.simps)
  have s41: "audio_queue (process_audio_chunks (start_recording True initial)
                            (replicate 41 (replicate (2 * 4096) 0)))
           = audio_queue (process_audio_chunks (start_recording True initial)
                            (replicate 40 (replicate (2 * 4096) 0)))
             @ [replicate 160000 0]"
    unfolding n41
    by (subst silent_chunks_Suc [OF audio_buffer_start refl])
      (simp add: audio_buffer_maxlen_def BUFFER_LENGTH_def SAMPLE_RATE_def SEGMENT_LENGTH_def
         del: replicate.simps)
  show ?thesis unfolding c by (simp only: s41 s40 append_assoc append_Cons append_Nil)
qed

subsection \<open>The queue, step by step\<close>

lemma process_audio_chunk_appends:
  assumes "process_audio_chunk s chunk = Inr s'"
  shows "audio_queue s' = audio_queue s @
           (if SEGMENT_LENGTH * SAMPLE_RATE \<le> length (audio_buffer s')
            then [audio_buffer s'] else [])"
  using assms
  by (auto simp add: process_audio_chunk_def Let_def split: sum.splits if_splits)

lemma worker_iteration_takes_head:
  "audio_queue (snd (worker_iteration result t)) = tl (audio_queue t)"
  by (cases "audio_queue t"; cases result) (simp_all add: worker_iteration_def Let_def)

lemma audio_queue_start_recording: "audio_queue (start_recording opened s) = audio_queue s"
  by (simp add: start_recording_def Let_def)

lemma audio_queue_stop_recording: "audio_queue (stop_recording s) = audio_queue s"
  by (simp add: stop_recording_def)

lemma step_queue:
  assumes "step transcribe s e = (s1, put, got, typed)"
  shows "got @ audio_queue s1 = audio_queue s @ put"
proof (cases e)
  case (Start opened)
  with assms show ?thesis by (auto simp add: audio_queue_start_recording)
next
  case Stop
  with assms show ?thesis by (auto simp add: audio_queue_stop_recording)
next
  case (Audio data)
  with assms show ?thesis
    by (auto split: if_splits sum.splits dest: process_audio_chunk_appends)
next
  case Pass
  show ?thesis
  proof (cases "audio_queue s")
    case Nil
    with assms Pass show ?thesis by auto
  next
    case (Cons audio_data queued)
    with assms Pass show ?thesis
      using worker_iteration_takes_head [of "transcribe audio_data (last_text s)" s]
      by (auto simp add: Let_def)
  qed
qed

lemma step_reconcile:
  assumes "step transcribe s e = (s1, put, got, typed)"
  shows "reconcile_segments transcribe (last_text s) got = (typed, last_text s1)"
proof (cases e)
  case (Start opened)
  with assms show ?thesis by (auto simp add: last_text_start_recording)
next
  case Stop
  with assms show ?thesis by (auto simp add: last_text_stop_recording)
next
  case (Audio data)
  with assms show ?thesis
    by (auto split: if_splits sum.splits dest: last_text_process_audio_chunk)
next
  case Pass
  show ?thesis
  proof (cases "audio_queue s")
    case Nil
    with assms Pass show ?thesis by auto
  next
    case (Cons audio_data queued)
    with assms Pass show ?thesis
      by (cases "transcribe audio_data (last_text s)")
        (auto simp add: worker_iteration_def Let_def)
  qed
qed

lemma step_silent_audio:
  assumes "recording s" and "stream s"
    and "audio_buffer s = replicate k 0" and "k \<le> audio_buffer_maxlen"
    and "j = min audio_buffer_maxlen (k + n)"
  shows "step transcribe s (Audio (replicate (2 * n) 0)) =
           (s\<lparr>audio_buffer := replicate j 0,
              audio_queue := audio_queue s @
                (if SEGMENT_LENGTH * SAMPLE_RATE \<le> j then [replicate j 0] else [])\<rparr>,
            if SEGMENT_LENGTH * SAMPLE_RATE \<le> j then [replicate j 0] else [], [], [])"
  using assms(1,2) silent_chunk [OF assms(3,4,5)] by simp

subsection \<open>The queue and the reconciliation over a run\<close>

lemma run_queue:
  "run transcribe s es = (s', put, got, typed) \<Longrightarrow>
   got @ audio_queue s' = audio_queue s @ put"
proof (induction es arbitrary: s s' put got typed)
  case Nil
  then show ?case by simp
next
  case (Cons e es)
  obtain s1 put1 got1 typed1 where e: "step transcribe s e = (s1, put1, got1, typed1)"
    by (cases "step transcribe s e") auto
  obtain s2 put2 got2 typed2 where es: "run transcribe s1 es = (s2, put2, got2, typed2)"
    by (cases "run transcribe s1 es") auto
  from Cons.prems e es have eq: "s' = s2" "put = put1 @ put2" "got = got1 @ got2"
    by simp_all
  have "got1 @ audio_queue s1 = audio_queue s @ put1" using e by (rule step_queue)
  moreover have "got2 @ audio_queue s2 = audio_queue s1 @ put2" using es by (rule Cons.IH)
  ultimately show ?case unfolding eq by (metis append.assoc)
qed

lemma reconcile_segments_append:
  "reconcile_segments transcribe prev (xs @ ys) =
     (case reconcile_segments transcribe prev xs of
        (typed1, mid) \<Rightarrow>
          (case reconcile_segments transcribe mid ys of
             (typed2, final) \<Rightarrow> (typed1 @ typed2, final)))"
  by (induction xs arbitrary: prev) (auto split: sum.splits prod.splits)

lemma run_reconcile:
  "run transcribe s es = (s', put, got, typed) \<Longrightarrow>
   reconcile_segments transcribe (last_text s) got = (typed, last_text s')"
proof (induction es arbitrary: s s' put got typed)
  case Nil
  then show ?case by simp
next
  case (Cons e es)
  obtain s1 put1 got1 typed1 where e: "step transcribe s e = (s1, put1, got1, typed1)"
    by (cases "step transcribe s e") auto
  obtain s2 put2 got2 typed2 where es: "run transcribe s1 es = (s2, put2, got2, typed2)"
    by (cases "run transcribe s1 es") auto
  from Cons.prems e es have eq: "s' = s2" "got = got1 @ got2" "typed = typed1 @ typed2"
    by simp_all
  have "reconcile_segments transcribe (last_text s) got1 = (typed1, last_text s1)"
    using e by (rule step_reconcile)
  moreover have "reconcile_segments transcribe (last_text s1) got2 = (typed2, last_text s2)"
    using es by (rule Cons.IH)
  ultimately show ?case unfolding eq by (simp add: reconcile_segments_append)
qed

text \<open>
  C9, amended: segments are dispatched without a sequence number, and the queue is
  first in, first out. In every run of start and stop commands, audio reads and whole
  passes of the worker loop, with any model: the segments the passes took off the queue,
  followed by those still queued, are the segments queued at the beginning followed by
  those dispatched, in the order of their dispatch; the texts typed and the last text at
  the end are those of transcribing and reconciling the segments taken, one after the
  other in that order; and from an empty queue the segments taken are an initial part
  of the segments dispatched. Passes of two worker threads that overlap are not runs of
  this kind, and nothing is stated of them.
\<close>

theorem segments_reconciled_in_dispatch_order:
  assumes "run transcribe s events = (s', put, got, typed)"
  shows "got @ audio_queue s' = audio_queue s @ put
       \<and> reconcile_segments transcribe (last_text s) got = (typed, last_text s')
       \<and> (audio_queue s = [] \<longrightarrow> prefix got put)"
  using run_queue [OF assms] run_reconcile [OF assms] by (auto simp add: prefix_def)

theorem segments_reconciled_in_dispatch_order_witness:
  "run (\<lambda>audio_data prompt.
          if length audio_data = 32000 then Inr ''hello'' else Inr ''hello world'')
       initial
       [Start True, Audio (replicate 64000 0), Pass, Audio (replicate 2 0),
        Audio (replicate 2 0), Pass]
     = (\<lparr>recording = True, stream = True, audio_buffer = replicate 32002 0,
          audio_queue = [replicate 32002 0], stop_threads = False,
          last_text = ''hello world''\<rparr>,
        [replicate 32000 0, replicate 32001 0, replicate 32002 0],
        [replicate 32000 0, replicate 32001 0],
        [''hello'', '' world''])
   \<and> [replicate 32000 0, replicate 32001 0] @ [replicate 32002 0]
       = audio_queue initial
         @ [replicate 32000 0, replicate 32001 0, replicate 32002 (0 :: sample)]
   \<and> reconcile_segments
        (\<lambda>audio_data prompt.
           if length audio_data = 32000 then Inr ''hello'' else Inr ''hello world'')
        (last_text initial) [replicate 32000 0, replicate 32001 0]
       = ([''hello'', '' world''], ''hello world'')
   \<and> prefix [replicate 32000 0, replicate 32001 0]
        [replicate 32000 0, replicate 32001 0, replicate 32002 (0 :: sample)]"
proof -
  let ?tr = "\<lambda>(audio_data :: sample list) (prompt :: string).
               if length audio_data = 32000 then Inr ''hello''
               else (Inr ''hello world'' :: error + string)"
  let ?s1 = "\<lparr>recording = True, stream = True, audio_buffer = [],
          audio_queue = [], stop_threads = False, last_text = []\<rparr>"
  let ?s2 = "\<lparr>recording = True, stream = True, audio_buffer = replicate 32000 0,
          audio_queue = [replicate 32000 0], stop_threads = False, last_text = []\<rparr>"
  let ?s3 = "\<lparr>recording = True, stream = True, audio_buffer = replicate 32000 0,
          audio_queue = [], stop_threads = False, last_text = ''hello''\<rparr>"
  let ?s4 = "\<lparr>recording = True, stream = True, audio_buffer = replicate 32001 0,
          audio_queue = [replicate 32001 0], stop_threads = False, last_text = ''hello''\<rparr>"
  let ?s5 = "\<lparr>recording = True, stream = True, audio_buffer = replicate 32002 0,
          audio_queue = [replicate 32001 0, replicate 32002 0], stop_threads = False,
          last_text = ''hello''\<rparr>"
  let ?s6 = "\<lparr>recording = True, stream = True, audio_buffer = replicate 32002 0,
          audio_queue = [replicate 32002 0], stop_threads = False,
          last_text = ''hello world''\<rparr>"
  have r1: "reconcile [] ''hello'' = (Some ''hello'', ''hello'')" by code_simp
  have r2: "reconcile ''hello'' ''hello world'' = (Some '' world'', ''hello world'')"
    by code_simp
  have e1: "step ?tr initial (Start True) = (?s1, [], [], [])"
    by (simp add: start_recording_def initial_def)
  have e2: "step ?tr ?s1 (Audio (replicate 64000 0)) = (?s2, [replicate 32000 0], [], [])"
    using step_silent_audio [of ?s1 0 32000 32000 ?tr]
    by (simp add: audio_buffer_maxlen_def BUFFER_LENGTH_def SAMPLE_RATE_def SEGMENT_LENGTH_def
          del: replicate.simps step.simps)
  have e3: "step ?tr ?s2 Pass = (?s3, [], [replicate 32000 0], [''hello''])"
    by (simp add: worker_iteration_def r1 del: replicate.simps)
  have e4: "step ?tr ?s3 (Audio (replicate 2 0)) = (?s4, [replicate 32001 0], [], [])"
    using step_silent_audio [of ?s3 32000 32001 1 ?tr]
    by (simp add: audio_buffer_maxlen_def BUFFER_LENGTH_def SAMPLE_RATE_def SEGMENT_LENGTH_def
          del: replicate.simps step.simps)
  have e5: "step ?tr ?s4 (Audio (replicate 2 0)) = (?s5, [replicate 32002 0], [], [])"
    using step_silent_audio [of ?s4 32001 32002 1 ?tr]
    by (simp add: audio_buffer_maxlen_def BUFFER_LENGTH_def SAMPLE_RATE_def SEGMENT_LENGTH_def
          del: replicate.simps step.simps)
  have e6: "step ?tr ?s5 Pass = (?s6, [], [replicate 32001 0], ['' world''])"
    by (simp add: worker_iteration_def r2 del: replicate.simps)
  have h: "run ?tr initial
       [Start True, Audio (replicate 64000 0), Pass, Audio (replicate 2 0),
        Audio (replicate 2 0), Pass]
     = (?s6, [replicate 32000 0, replicate 32001 0, replicate 32002 0],
        [replicate 32000 0, replicate 32001 0], [''hello'', '' world''])"
    by (simp add: e1 e2 e3 e4 e5 e6 del: replicate.simps step.simps)
  have q: "audio_queue initial = []" by (simp add: initial_def)
  show ?thesis
    using h segments_reconciled_in_dispatch_order [OF h] by (simp add: q del: replicate.simps)
qed

end
